theory Spec2Isabelle
  imports Main "HOL-Library.AList" "HOL-Library.Sublist"
begin

section \<open>The snapshot builder \<^verbatim>\<open>repo_to_json.py\<close>\<close>

text \<open>
  The script walks a directory with \<^verbatim>\<open>os.walk\<close>, builds a nested dictionary of the
  text files it finds and writes the dictionary with \<^verbatim>\<open>json.dump(..., indent=2)\<close>.
  The embedding has three layers: the Python library calls the script makes (strings,
  the UTF-8 text reader, \<^verbatim>\<open>os.walk\<close>, \<^verbatim>\<open>json.dump\<close>), modelled after the
  CPython documentation; the function \<^verbatim>\<open>repo_to_json\<close> itself, statement by
  statement; and a direct description of the tree it builds, proved equal to what the
  loop computes.
\<close>

subsection \<open>Python strings\<close>

text \<open>
  A Python \<^verbatim>\<open>str\<close> is a sequence of Unicode code points: a list of naturals.
  The bytes of a file are a HOL \<open>string\<close>, whose characters are bytes.
  \<open>str\<close> reads an ASCII literal of the source as a Python string.
\<close>

type_synonym pystr = "nat list"

definition str :: "string \<Rightarrow> pystr" where
  "str s = map of_char s"

text \<open>\<^verbatim>\<open>s.endswith(suffix)\<close>.\<close>

definition endswith :: "pystr \<Rightarrow> pystr \<Rightarrow> bool" where
  "endswith s suff =
     (length suff \<le> length s \<and> drop (length s - length suff) s = suff)"

text \<open>
  \<^verbatim>\<open>s.split(os.sep)\<close> on POSIX, where \<^verbatim>\<open>os.sep\<close> is \<^verbatim>\<open>'/'\<close> (code point 47):
  the empty string splits into one empty part.
\<close>

fun split_sep :: "pystr \<Rightarrow> pystr list" where
  "split_sep [] = [[]]"
| "split_sep (c # cs) =
     (if c = 47 then [] # split_sep cs
      else (case split_sep cs of [] \<Rightarrow> [[c]] | p # ps \<Rightarrow> (c # p) # ps))"

text \<open>\<^verbatim>\<open>os.sep.join(parts)\<close>.\<close>

fun join_sep :: "pystr list \<Rightarrow> pystr" where
  "join_sep [] = []"
| "join_sep [p] = p"
| "join_sep (p # q # ps) = p @ 47 # join_sep (q # ps)"

subsection \<open>Reading a file as UTF-8 text\<close>

text \<open>
  \<^verbatim>\<open>open(file_path, 'r', encoding='utf-8')\<close> followed by \<^verbatim>\<open>f.read()\<close> decodes the
  whole file with the strict UTF-8 codec and, since no \<^verbatim>\<open>newline\<close> argument is given,
  in universal-newlines mode. The decoder accepts exactly the well-formed byte sequences
  of the Unicode standard: no overlong forms, no surrogates, nothing above U+10FFFF.
  \<open>None\<close> stands for \<^verbatim>\<open>UnicodeDecodeError\<close>.
\<close>

definition is_cont :: "nat \<Rightarrow> bool" where
  "is_cont b = (128 \<le> b \<and> b < 192)"

fun utf8_decode :: "nat list \<Rightarrow> pystr option" where
  "utf8_decode [] = Some []"
| "utf8_decode (b0 # bs) =
     (if b0 < 128 then map_option ((#) b0) (utf8_decode bs)
      else if 194 \<le> b0 \<and> b0 < 224 then
        (case bs of
           b1 # r \<Rightarrow>
             if is_cont b1
             then map_option ((#) ((b0 - 192) * 64 + (b1 - 128))) (utf8_decode r)
             else None
         | _ \<Rightarrow> None)
      else if 224 \<le> b0 \<and> b0 < 240 then
        (case bs of
           b1 # b2 # r \<Rightarrow>
             if is_cont b1 \<and> is_cont b2 \<and> (if b0 = 224 then 160 \<le> b1 else True)
                \<and> (if b0 = 237 then b1 < 160 else True)
             then map_option
                    ((#) ((b0 - 224) * 4096 + (b1 - 128) * 64 + (b2 - 128)))
                    (utf8_decode r)
             else None
         | _ \<Rightarrow> None)
      else if 240 \<le> b0 \<and> b0 < 245 then
        (case bs of
           b1 # b2 # b3 # r \<Rightarrow>
             if is_cont b1 \<and> is_cont b2 \<and> is_cont b3
                \<and> (if b0 = 240 then 144 \<le> b1 else True)
                \<and> (if b0 = 244 then b1 < 144 else True)
             then map_option
                    ((#) ((b0 - 240) * 262144 + (b1 - 128) * 4096 + (b2 - 128) * 64
                          + (b3 - 128)))
                    (utf8_decode r)
             else None
         | _ \<Rightarrow> None)
      else None)"

text \<open>
  Universal newlines: on input, \<^verbatim>\<open>'\r\n'\<close> and a lone \<^verbatim>\<open>'\r'\<close> (code point 13)
  are both translated into \<^verbatim>\<open>'\n'\<close> (code point 10) before the text reaches the
  caller.
\<close>

fun universal_newlines :: "pystr \<Rightarrow> pystr" where
  "universal_newlines [] = []"
| "universal_newlines [c] = (if c = 13 then [10] else [c])"
| "universal_newlines (c # d # cs) =
     (if c = 13 \<and> d = 10 then 10 # universal_newlines cs
      else if c = 13 then 10 # universal_newlines (d # cs)
      else c # universal_newlines (d # cs))"

definition read_text :: "string \<Rightarrow> pystr option" where
  "read_text bytes = map_option universal_newlines (utf8_decode (map of_char bytes))"

subsection \<open>The filesystem\<close>

text \<open>
  What the script can observe of the tree under \<^verbatim>\<open>repo_path\<close>: a regular file with
  its bytes, a non-directory entry that cannot be opened for reading (permission denied,
  a vanished file), a directory with its entries in the order \<^verbatim>\<open>os.scandir\<close>
  enumerates them, and a directory that cannot be listed. Symbolic links are outside the
  model.
\<close>

datatype fsnode =
    File string
  | FileNoAccess
  | Dir "(pystr \<times> fsnode) list"
  | DirNoAccess

fun is_dir :: "fsnode \<Rightarrow> bool" where
  "is_dir (Dir es) = True"
| "is_dir DirNoAccess = True"
| "is_dir _ = False"

text \<open>Path resolution from a node, one name per step.\<close>

fun fs_lookup :: "fsnode \<Rightarrow> pystr list \<Rightarrow> fsnode option" where
  "fs_lookup n [] = Some n"
| "fs_lookup (Dir es) (name # path) =
     (case map_of es name of None \<Rightarrow> None | Some n \<Rightarrow> fs_lookup n path)"
| "fs_lookup _ (name # path) = None"

text \<open>
  A name in a directory of a real filesystem is not empty, is neither \<^verbatim>\<open>.\<close> nor
  \<^verbatim>\<open>..\<close>, has no \<^verbatim>\<open>/\<close> and no NUL in it, and names one entry only.
\<close>

definition valid_name :: "pystr \<Rightarrow> bool" where
  "valid_name name =
     (name \<noteq> [] \<and> name \<noteq> str ''.'' \<and> name \<noteq> str ''..'' \<and> 47 \<notin> set name \<and> 0 \<notin> set name)"

fun wf_fs :: "fsnode \<Rightarrow> bool"
  and wf_entries :: "(pystr \<times> fsnode) list \<Rightarrow> bool" where
  "wf_fs (Dir es) = (distinct (map fst es) \<and> wf_entries es)"
| "wf_fs (File bytes) = True"
| "wf_fs FileNoAccess = True"
| "wf_fs DirNoAccess = True"
| "wf_entries [] = True"
| "wf_entries (e # es) = (valid_name (fst e) \<and> wf_fs (snd e) \<and> wf_entries es)"

subsection \<open>\<^verbatim>\<open>os.walk\<close>\<close>

text \<open>
  \<^verbatim>\<open>os.walk(top)\<close>, top-down, with \<^verbatim>\<open>onerror=None\<close>: a directory that
  \<^verbatim>\<open>scandir\<close> cannot list (it does not exist, it is not a directory, permission is
  denied) is passed over in silence and yields nothing. A listed directory yields
  \<^verbatim>\<open>(root, dirs, files)\<close>; the caller may then edit \<^verbatim>\<open>dirs\<close> in place, and the
  walk goes on into the names that are left, in their order, each subtree in full before
  the next. \<open>edit\<close> is the caller's edit of \<^verbatim>\<open>dirs\<close>.

  The first component of a yield is the path of the directory as the list of names below
  the top of the walk, which is what \<^verbatim>\<open>os.path.join\<close> appends to \<^verbatim>\<open>repo_path\<close>.
\<close>

definition dirs_of :: "(pystr \<times> fsnode) list \<Rightarrow> pystr list" where
  "dirs_of es = map fst (filter (\<lambda>e. is_dir (snd e)) es)"

definition nondirs_of :: "(pystr \<times> fsnode) list \<Rightarrow> pystr list" where
  "nondirs_of es = map fst (filter (\<lambda>e. \<not> is_dir (snd e)) es)"

type_synonym yield = "pystr list \<times> pystr list \<times> pystr list"

lemma size_entry: "(d, n) \<in> set es \<Longrightarrow> size n < size (Dir es)"
  by (induction es) auto

function os_walk :: "(pystr list \<Rightarrow> pystr list) \<Rightarrow> pystr list \<Rightarrow> fsnode \<Rightarrow> yield list" where
  "os_walk edit root (Dir es) =
     (root, dirs_of es, nondirs_of es) #
     concat (map (\<lambda>d. case map_of es d of
                         None \<Rightarrow> []
                       | Some n \<Rightarrow> os_walk edit (root @ [d]) n)
                 (edit (dirs_of es)))"
| "os_walk edit root (File bytes) = []"
| "os_walk edit root FileNoAccess = []"
| "os_walk edit root DirNoAccess = []"
  by pat_completeness auto
termination
  by (relation "measure (\<lambda>(edit, root, n). size n)")
     (auto dest!: map_of_SomeD size_entry)

subsection \<open>The dictionary under construction\<close>

text \<open>
  \<^verbatim>\<open>repo_structure\<close> is a dictionary whose values are strings (file contents) and
  dictionaries (directories). A Python dictionary keeps its keys in insertion order,
  which is the order \<^verbatim>\<open>json.dump\<close> writes them in: an association list, where
  \<^verbatim>\<open>d[k] = v\<close> replaces the value of a key that is present and appends a new key
  (\<open>AList.update\<close>).
\<close>

datatype json = JStr pystr | JObj "(pystr \<times> json) list"

datatype error = OSError | UnicodeDecodeError | AttributeError | TypeError

text \<open>\<^verbatim>\<open>current_level[file] = content\<close>; a string does not support item assignment.\<close>

fun setitem :: "json \<Rightarrow> pystr \<Rightarrow> json \<Rightarrow> error + json" where
  "setitem (JObj dct) key v = Inr (JObj (AList.update key v dct))"
| "setitem (JStr s) key v = Inl TypeError"

text \<open>
  \<^verbatim>\<open>for part in parts: current_level = current_level.setdefault(part, {})\<close>, then the
  rest of the loop body \<open>body\<close> working on \<^verbatim>\<open>current_level\<close>. In Python
  \<^verbatim>\<open>current_level\<close> is a reference into \<^verbatim>\<open>repo_structure\<close>, and what the body stores
  through it is seen from the root; here the dictionaries on the way down are rebuilt
  around the new child. \<^verbatim>\<open>setdefault\<close> returns the value of a key that is present, a
  string included, and a string has no \<^verbatim>\<open>setdefault\<close>.
\<close>

fun at_level :: "pystr list \<Rightarrow> (json \<Rightarrow> error + json) \<Rightarrow> json \<Rightarrow> error + json" where
  "at_level [] body current_level = body current_level"
| "at_level (part # parts) body (JObj dct) =
     (case at_level parts body (case map_of dct part of None \<Rightarrow> JObj [] | Some child \<Rightarrow> child) of
        Inl e \<Rightarrow> Inl e
      | Inr child' \<Rightarrow> Inr (JObj (AList.update part child' dct)))"
| "at_level (part # parts) body (JStr s) = Inl AttributeError"

fun json_lookup :: "json \<Rightarrow> pystr list \<Rightarrow> json option" where
  "json_lookup t [] = Some t"
| "json_lookup (JObj dct) (key # path) =
     (case map_of dct key of None \<Rightarrow> None | Some child \<Rightarrow> json_lookup child path)"
| "json_lookup (JStr s) (key # path) = None"

subsection \<open>\<^verbatim>\<open>repo_to_json\<close>\<close>

definition excluded_dirs :: "pystr set" where
  "excluded_dirs =
     {str ''.git'', str ''node_modules'', str ''dist'', str ''build'', str ''__pycache__''}"

definition excluded_files :: "pystr set" where
  "excluded_files = {str ''.DS_Store'', str ''*.log'', str ''*.lock''}"

definition excluded_extensions :: "pystr set" where
  "excluded_extensions = {str ''.js'', str ''.js.map'', str ''.d.ts'', str ''.exe'', str ''.pyc''}"

text \<open>\<^verbatim>\<open>dirs[:] = [d for d in dirs if d not in excluded_dirs]\<close>\<close>

definition filter_dirs :: "pystr list \<Rightarrow> pystr list" where
  "filter_dirs dirs = filter (\<lambda>d. d \<notin> excluded_dirs) dirs"

text \<open>
  \<^verbatim>\<open>os.path.relpath(root, repo_path)\<close> for a \<^verbatim>\<open>root\<close> that \<^verbatim>\<open>os.walk(repo_path)\<close>
  yields: \<^verbatim>\<open>'.'\<close> for the top itself, the names below it joined by \<^verbatim>\<open>os.sep\<close>
  otherwise.
\<close>

definition relpath :: "pystr list \<Rightarrow> pystr" where
  "relpath root = (if root = [] then str ''.'' else join_sep root)"

text \<open>The test of lines 25 and 26.\<close>

definition file_excluded :: "pystr \<Rightarrow> bool" where
  "file_excluded file =
     ((\<exists>ext\<in>excluded_extensions. endswith file ext) \<or> file \<in> excluded_files)"

text \<open>
  The \<^verbatim>\<open>with open(file_path, 'r', encoding='utf-8')\<close> block, where \<^verbatim>\<open>file_path\<close> is
  \<^verbatim>\<open>os.path.join(root, file)\<close>: any failure to open or read is an \<^verbatim>\<open>OSError\<close>.
\<close>

definition open_read :: "fsnode \<Rightarrow> pystr list \<Rightarrow> error + pystr" where
  "open_read repo file_path =
     (case fs_lookup repo file_path of
        Some (File bytes) \<Rightarrow>
          (case read_text bytes of
             None \<Rightarrow> Inl UnicodeDecodeError
           | Some content \<Rightarrow> Inr content)
      | _ \<Rightarrow> Inl OSError)"

text \<open>
  \<^verbatim>\<open>for file in files\<close>: only \<^verbatim>\<open>UnicodeDecodeError\<close> is caught; any other
  exception leaves the loop and the function.
\<close>

fun files_loop :: "fsnode \<Rightarrow> pystr list \<Rightarrow> pystr list \<Rightarrow> json \<Rightarrow> error + json" where
  "files_loop repo root [] current_level = Inr current_level"
| "files_loop repo root (file # files) current_level =
     (if file_excluded file then files_loop repo root files current_level
      else
        (case open_read repo (root @ [file]) of
           Inl UnicodeDecodeError \<Rightarrow> files_loop repo root files current_level
         | Inl e \<Rightarrow> Inl e
         | Inr content \<Rightarrow>
             (case setitem current_level file (JStr content) of
                Inl e \<Rightarrow> Inl e
              | Inr current_level' \<Rightarrow> files_loop repo root files current_level')))"

text \<open>The body of \<^verbatim>\<open>for root, dirs, files in os.walk(repo_path)\<close>, lines 17 to 36.\<close>

definition visit :: "fsnode \<Rightarrow> yield \<Rightarrow> json \<Rightarrow> error + json" where
  "visit repo y repo_structure =
     (case y of (root, dirs, files) \<Rightarrow>
        let rel_path = relpath root;
            parts = (if rel_path \<noteq> str ''.'' then split_sep rel_path else [])
        in at_level parts (files_loop repo root files) repo_structure)"

fun walk_loop :: "fsnode \<Rightarrow> yield list \<Rightarrow> json \<Rightarrow> error + json" where
  "walk_loop repo [] repo_structure = Inr repo_structure"
| "walk_loop repo (y # ys) repo_structure =
     (case visit repo y repo_structure of
        Inl e \<Rightarrow> Inl e
      | Inr repo_structure' \<Rightarrow> walk_loop repo ys repo_structure')"

text \<open>
  Lines 11 to 36. \<open>None\<close> is a \<^verbatim>\<open>repo_path\<close> that does not exist:
  \<^verbatim>\<open>scandir\<close> fails on it as it does on a path that is not a directory, and the walk
  yields nothing.
\<close>

definition build_structure :: "fsnode option \<Rightarrow> error + json" where
  "build_structure repo_path =
     (case repo_path of
        None \<Rightarrow> Inr (JObj [])
      | Some repo \<Rightarrow> walk_loop repo (os_walk filter_dirs [] repo) (JObj []))"

subsection \<open>\<^verbatim>\<open>json.dump(repo_structure, f, indent=2)\<close>\<close>

text \<open>
  With \<^verbatim>\<open>indent=2\<close> and every other argument at its default: the item separator is
  \<^verbatim>\<open>','\<close>, the key separator \<^verbatim>\<open>': '\<close>, keys are written in insertion order, and
  \<^verbatim>\<open>ensure_ascii\<close> is \<^verbatim>\<open>True\<close>, so strings go through
  \<^verbatim>\<open>encode_basestring_ascii\<close>: every character outside \<^verbatim>\<open>' '\<close> to \<^verbatim>\<open>'~'\<close>, and
  \<^verbatim>\<open>"\<close> and the backslash, is replaced by an escape; a code point above U+FFFF becomes
  the two escapes of its UTF-16 surrogate pair.
\<close>

definition hexdigit :: "nat \<Rightarrow> nat" where
  "hexdigit d = (if d < 10 then 48 + d else 87 + d)"

text \<open>\<^verbatim>\<open>'\\u{0:04x}'.format(n)\<close> for \<open>n\<close> below \<open>0x10000\<close>.\<close>

definition u_escape :: "nat \<Rightarrow> pystr" where
  "u_escape n =
     [92, 117, hexdigit (n div 4096 mod 16), hexdigit (n div 256 mod 16),
      hexdigit (n div 16 mod 16), hexdigit (n mod 16)]"

definition escape_char :: "nat \<Rightarrow> pystr" where
  "escape_char c =
     (if c = 92 then [92, 92]
      else if c = 34 then [92, 34]
      else if 32 \<le> c \<and> c \<le> 126 then [c]
      else if c = 8 then [92, 98]
      else if c = 12 then [92, 102]
      else if c = 10 then [92, 110]
      else if c = 13 then [92, 114]
      else if c = 9 then [92, 116]
      else if c < 65536 then u_escape c
      else u_escape (or 55296 (and (drop_bit 10 (c - 65536)) 1023))
           @ u_escape (or 56320 (and (c - 65536) 1023)))"

definition encode_basestring_ascii :: "pystr \<Rightarrow> pystr" where
  "encode_basestring_ascii s = 34 # concat (map escape_char s) @ [34]"

text \<open>\<^verbatim>\<open>'\n' + _indent * _current_indent_level\<close>, where \<^verbatim>\<open>_indent\<close> is two spaces.\<close>

definition newline_indent :: "nat \<Rightarrow> pystr" where
  "newline_indent level = 10 # replicate (2 * level) 32"

text \<open>
  \<^verbatim>\<open>_iterencode_dict\<close>, with the chunks it yields concatenated. \<open>first\<close> is its flag of
  the same name; \<open>level\<close> is \<^verbatim>\<open>_current_indent_level\<close>.
\<close>

fun iterencode :: "nat \<Rightarrow> json \<Rightarrow> pystr"
  and iterencode_items :: "nat \<Rightarrow> bool \<Rightarrow> (pystr \<times> json) list \<Rightarrow> pystr" where
  "iterencode level (JStr s) = encode_basestring_ascii s"
| "iterencode level (JObj dct) =
     (if dct = [] then str ''{}''
      else str ''{'' @ newline_indent (level + 1) @ iterencode_items (level + 1) True dct
           @ newline_indent level @ str ''}'')"
| "iterencode_items level first [] = []"
| "iterencode_items level first (item # items) =
     (if first then [] else str '','' @ newline_indent level)
     @ encode_basestring_ascii (fst item) @ str '': '' @ iterencode level (snd item)
     @ iterencode_items level False items"

definition json_dump :: "json \<Rightarrow> pystr" where
  "json_dump obj = iterencode 0 obj"

subsection \<open>The run\<close>

text \<open>
  The part of the world a run reads and writes: what \<^verbatim>\<open>repo_path\<close> names (\<open>None\<close>
  when nothing is there), whether \<^verbatim>\<open>output_file\<close> can be opened for writing, and the
  text of \<^verbatim>\<open>output_file\<close> (\<open>None\<close> while the file does not exist).
  \<^verbatim>\<open>output_file\<close> is taken to lie outside the tree under \<^verbatim>\<open>repo_path\<close>, so that
  writing it leaves the tree as it was.
\<close>

record world =
  repo_path :: "fsnode option"
  output_writable :: bool
  output_file :: "pystr option"

text \<open>Lines 5 to 39: \<open>Inl\<close> is the exception that leaves the function.\<close>

definition repo_to_json :: "world \<Rightarrow> error + world" where
  "repo_to_json w =
     (case build_structure (repo_path w) of
        Inl e \<Rightarrow> Inl e
      | Inr repo_structure \<Rightarrow>
          if output_writable w
          then Inr (w\<lparr>output_file := Some (json_dump repo_structure)\<rparr>)
          else Inl OSError)"

text \<open>
  Lines 41 to 48, for a command line with both arguments: the exit status of the
  interpreter (1 after an uncaught exception, 0 otherwise) and the world it leaves. The
  message printed after a successful run is left out.
\<close>

definition script :: "world \<Rightarrow> nat \<times> world" where
  "script w = (case repo_to_json w of Inl e \<Rightarrow> (1, w) | Inr w' \<Rightarrow> (0, w'))"

section \<open>A direct description of the tree\<close>

text \<open>
  What the loop builds, by recursion on the directory: first a leaf for every file of the
  directory that is not excluded and decodes, in the order of the listing, then a node for
  every listed subdirectory that is not excluded, in the order of the listing.
  \<open>blocked\<close> holds when the walk reaches a file that is not excluded and cannot be
  read, which is where the loop raises.
\<close>

fun leaves :: "(pystr \<times> fsnode) list \<Rightarrow> (pystr \<times> json) list" where
  "leaves [] = []"
| "leaves (e # es) =
     (case snd e of
        File bytes \<Rightarrow>
          (if file_excluded (fst e) then leaves es
           else (case read_text bytes of
                   None \<Rightarrow> leaves es
                 | Some content \<Rightarrow> (fst e, JStr content) # leaves es))
      | _ \<Rightarrow> leaves es)"

fun tree_of :: "fsnode \<Rightarrow> json"
  and subtrees :: "(pystr \<times> fsnode) list \<Rightarrow> (pystr \<times> json) list" where
  "tree_of (Dir es) = JObj (leaves es @ subtrees es)"
| "tree_of (File bytes) = JObj []"
| "tree_of FileNoAccess = JObj []"
| "tree_of DirNoAccess = JObj []"
| "subtrees [] = []"
| "subtrees (e # es) =
     (case snd e of
        Dir sub \<Rightarrow>
          (if fst e \<in> excluded_dirs then subtrees es
           else (fst e, tree_of (snd e)) # subtrees es)
      | _ \<Rightarrow> subtrees es)"

fun blocked_files :: "(pystr \<times> fsnode) list \<Rightarrow> bool" where
  "blocked_files [] = False"
| "blocked_files (e # es) =
     ((snd e = FileNoAccess \<and> \<not> file_excluded (fst e)) \<or> blocked_files es)"

fun blocked :: "fsnode \<Rightarrow> bool"
  and blocked_dirs :: "(pystr \<times> fsnode) list \<Rightarrow> bool" where
  "blocked (Dir es) = (blocked_files es \<or> blocked_dirs es)"
| "blocked (File bytes) = False"
| "blocked FileNoAccess = False"
| "blocked DirNoAccess = False"
| "blocked_dirs [] = False"
| "blocked_dirs (e # es) = ((fst e \<notin> excluded_dirs \<and> blocked (snd e)) \<or> blocked_dirs es)"

text \<open>What the tree holds under a name, given the entry of that name.\<close>

fun node_of :: "pystr \<Rightarrow> fsnode \<Rightarrow> json option" where
  "node_of k (File bytes) = (if file_excluded k then None else map_option JStr (read_text bytes))"
| "node_of k (Dir sub) = (if k \<in> excluded_dirs then None else Some (tree_of (Dir sub)))"
| "node_of k FileNoAccess = None"
| "node_of k DirNoAccess = None"

text \<open>The same yield, seen from a directory further up.\<close>

definition shift :: "pystr list \<Rightarrow> yield \<Rightarrow> yield" where
  "shift pre y = (pre @ fst y, snd y)"

text \<open>The loop on a tree computes its direct description.\<close>

definition walk_ok :: "fsnode \<Rightarrow> bool" where
  "walk_ok n = (walk_loop n (os_walk filter_dirs [] n) (JObj [])
                 = (if blocked n then Inl OSError else Inr (tree_of n)))"

section \<open>Notions the claims are stated with\<close>

text \<open>
  The tree with every excluded directory made unlistable: all that is left of such a
  directory is its name.
\<close>

fun hide_excluded :: "fsnode \<Rightarrow> fsnode"
  and hide_entries :: "(pystr \<times> fsnode) list \<Rightarrow> (pystr \<times> fsnode) list" where
  "hide_excluded (Dir es) = Dir (hide_entries es)"
| "hide_excluded (File bytes) = File bytes"
| "hide_excluded FileNoAccess = FileNoAccess"
| "hide_excluded DirNoAccess = DirNoAccess"
| "hide_entries [] = []"
| "hide_entries (e # es) =
     (if is_dir (snd e) \<and> fst e \<in> excluded_dirs then (fst e, DirNoAccess)
      else (fst e, hide_excluded (snd e))) # hide_entries es"

text \<open>
  The two replacements that universal newlines amount to: every \<^verbatim>\<open>\r\n\<close> becomes
  \<^verbatim>\<open>\n\<close>, from left to right, and then every \<^verbatim>\<open>\r\<close> that is left becomes \<^verbatim>\<open>\n\<close>.
\<close>

fun crlf_to_lf :: "pystr \<Rightarrow> pystr" where
  "crlf_to_lf [] = []"
| "crlf_to_lf [c] = [c]"
| "crlf_to_lf (c # d # cs) =
     (if c = 13 \<and> d = 10 then 10 # crlf_to_lf cs else c # crlf_to_lf (d # cs))"

definition cr_to_lf :: "pystr \<Rightarrow> pystr" where
  "cr_to_lf s = map (\<lambda>c. if c = 13 then 10 else c) s"

text \<open>The tree without the files that do not decode as UTF-8.\<close>

fun without_binary :: "fsnode \<Rightarrow> fsnode"
  and without_binary_entries :: "(pystr \<times> fsnode) list \<Rightarrow> (pystr \<times> fsnode) list" where
  "without_binary (Dir es) = Dir (without_binary_entries es)"
| "without_binary (File bytes) = File bytes"
| "without_binary FileNoAccess = FileNoAccess"
| "without_binary DirNoAccess = DirNoAccess"
| "without_binary_entries [] = []"
| "without_binary_entries (e # es) =
     (case snd e of
        File bytes \<Rightarrow>
          (if utf8_decode (map of_char bytes) = None then without_binary_entries es
           else e # without_binary_entries es)
      | _ \<Rightarrow> (fst e, without_binary (snd e)) # without_binary_entries es)"

text \<open>The tree without the directories that cannot be listed.\<close>

fun without_unlistable :: "fsnode \<Rightarrow> fsnode"
  and without_unlistable_entries :: "(pystr \<times> fsnode) list \<Rightarrow> (pystr \<times> fsnode) list" where
  "without_unlistable (Dir es) = Dir (without_unlistable_entries es)"
| "without_unlistable (File bytes) = File bytes"
| "without_unlistable FileNoAccess = FileNoAccess"
| "without_unlistable DirNoAccess = DirNoAccess"
| "without_unlistable_entries [] = []"
| "without_unlistable_entries (e # es) =
     (if snd e = DirNoAccess then without_unlistable_entries es
      else (fst e, without_unlistable (snd e)) # without_unlistable_entries es)"

text \<open>
  An entry of a directory that leaves something in the output: a file that is not
  excluded and decodes, or a listed subdirectory that is not excluded.
\<close>

definition survives :: "pystr \<times> fsnode \<Rightarrow> bool" where
  "survives e =
     (case snd e of
        File bytes \<Rightarrow> \<not> file_excluded (fst e) \<and> read_text bytes \<noteq> None
      | Dir sub \<Rightarrow> fst e \<notin> excluded_dirs
      | _ \<Rightarrow> False)"



subsection \<open>Sample trees\<close>

text \<open>
  The scenario of the specification (\<^verbatim>\<open>src/main.txt\<close>, \<^verbatim>\<open>.git/config\<close>,
  \<^verbatim>\<open>app.js\<close>, \<^verbatim>\<open>readme.md\<close>), with a log file, a file named \<^verbatim>\<open>.exe\<close>, a file
  that is not UTF-8, an empty directory and a directory that cannot be listed added; and
  the dictionary the loop builds from it.
\<close>

definition scenario_repo :: fsnode where
  "scenario_repo = Dir
     [(str ''src'', Dir [(str ''main.txt'', File ''hello'')]),
      (str ''.git'', Dir [(str ''config'', File ''x'')]),
      (str ''app.js'', File ''x''),
      (str ''readme.md'', File ''hi''),
      (str ''foo.log'', File ''log''),
      (str ''.exe'', File ''x''),
      (str ''logo.bin'', File [CHR 0xFF]),
      (str ''empty'', Dir []),
      (str ''locked'', DirNoAccess)]"

definition scenario_tree :: json where
  "scenario_tree = JObj
     [(str ''readme.md'', JStr (str ''hi'')),
      (str ''foo.log'', JStr (str ''log'')),
      (str ''src'', JObj [(str ''main.txt'', JStr (str ''hello''))]),
      (str ''empty'', JObj [])]"

text \<open>A file with a lone carriage return, a Windows line ending and a newline.\<close>

definition mixed_newlines_repo :: fsnode where
  "mixed_newlines_repo =
     Dir [(str ''a.txt'',
           File [CHR ''a'', CHR 0x0D, CHR ''b'', CHR 0x0D, CHR 0x0A, CHR ''c'', CHR 0x0A])]"

text \<open>A file with a Windows line ending; a file holding U+00E9 in UTF-8.\<close>

definition crlf_repo :: fsnode where
  "crlf_repo = Dir [(str ''a.txt'', File [CHR ''a'', CHR 0x0D, CHR 0x0A, CHR ''b''])]"


text \<open>
  A file that cannot be opened next to one that can; a root with one binary file; a root
  with one directory that cannot be listed.
\<close>

definition unreadable_repo :: fsnode where
  "unreadable_repo = Dir [(str ''a.txt'', FileNoAccess), (str ''b.txt'', File ''hi'')]"

definition binary_repo :: fsnode where
  "binary_repo = Dir [(str ''logo.bin'', File [CHR 0xFF])]"

definition unlistable_repo :: fsnode where
  "unlistable_repo = Dir [(str ''locked'', DirNoAccess)]"

section \<open>The loop computes the direct description\<close>

subsection \<open>Dictionaries, paths and the walk\<close>

lemma update_fresh: "k \<notin> fst ` set al \<Longrightarrow> AList.update k v al = al @ [(k, v)]"
  by (induction al) auto

lemma os_walk_shift:
  "os_walk edit (pre @ p) n = map (shift pre) (os_walk edit p n)"
proof (induction edit p n arbitrary: pre rule: os_walk.induct)
  case (1 edit root es)
  have "(case map_of es d of None \<Rightarrow> [] | Some n \<Rightarrow> os_walk edit ((pre @ root) @ [d]) n)
        = map (shift pre) (case map_of es d of None \<Rightarrow> [] | Some n \<Rightarrow> os_walk edit (root @ [d]) n)"
    if "d \<in> set (edit (dirs_of es))" for d
    using 1 [OF that, of _ pre] by (simp split: option.split)
  then show ?case
    by (simp add: shift_def map_concat cong: map_cong)
qed simp_all

lemma split_sep_plain: "47 \<notin> set p \<Longrightarrow> split_sep p = [p]"
  by (induction p) auto

lemma split_sep_app: "47 \<notin> set p \<Longrightarrow> split_sep (p @ 47 # rest) = p # split_sep rest"
  by (induction p) auto

lemma split_join: "\<forall>c\<in>set r. 47 \<notin> set c \<Longrightarrow> r \<noteq> [] \<Longrightarrow> split_sep (join_sep r) = r"
  by (induction r rule: join_sep.induct) (auto simp: split_sep_plain split_sep_app)

lemma join_not_dot: "\<forall>c\<in>set r. valid_name c \<Longrightarrow> r \<noteq> [] \<Longrightarrow> join_sep r \<noteq> str ''.''"
  by (induction r rule: join_sep.induct) (auto simp: valid_name_def str_def append_eq_Cons_conv)

lemma parts_relpath:
  "\<forall>c\<in>set r. valid_name c \<Longrightarrow>
   (if relpath r \<noteq> str ''.'' then split_sep (relpath r) else []) = r"
  using split_join [of r] join_not_dot [of r]
  by (auto simp: relpath_def valid_name_def)

lemma wf_entries_iff: "wf_entries es \<longleftrightarrow> (\<forall>e\<in>set es. valid_name (fst e) \<and> wf_fs (snd e))"
  by (induction es) auto

lemma wf_map_of: "wf_entries es \<Longrightarrow> map_of es d = Some n \<Longrightarrow> valid_name d \<and> wf_fs n"
  by (auto simp: wf_entries_iff dest!: map_of_SomeD)

lemma os_walk_valid:
  "wf_fs n \<Longrightarrow> \<forall>c\<in>set p. valid_name c \<Longrightarrow> y \<in> set (os_walk edit p n) \<Longrightarrow>
   \<forall>c\<in>set (fst y). valid_name c"
proof (induction edit p n arbitrary: y rule: os_walk.induct)
  case (1 edit root es)
  show ?case
  proof (cases "y = (root, dirs_of es, nondirs_of es)")
    case True
    with 1 show ?thesis by simp
  next
    case False
    with "1.prems"(3) obtain d n where d: "d \<in> set (edit (dirs_of es))"
      and n: "map_of es d = Some n" and y: "y \<in> set (os_walk edit (root @ [d]) n)"
      by (auto split: option.splits) metis
    from "1.prems"(1) n have "valid_name d" "wf_fs n"
      by (auto dest: wf_map_of)
    with "1.IH" [OF d n _ _ y] "1.prems"(2) show ?thesis by simp
  qed
qed simp_all

lemma os_walk_avoids:
  "\<forall>ds. set (edit ds) \<inter> X = {} \<Longrightarrow> set p \<inter> X = {} \<Longrightarrow> y \<in> set (os_walk edit p n) \<Longrightarrow>
   set (fst y) \<inter> X = {}"
proof (induction edit p n arbitrary: y rule: os_walk.induct)
  case (1 edit root es)
  show ?case
  proof (cases "y = (root, dirs_of es, nondirs_of es)")
    case True
    with 1 show ?thesis by simp
  next
    case False
    with "1.prems"(3) obtain d n where d: "d \<in> set (edit (dirs_of es))"
      and n: "map_of es d = Some n" and y: "y \<in> set (os_walk edit (root @ [d]) n)"
      by (auto split: option.splits) metis
    from d "1.prems"(1) have "d \<notin> X" by auto
    with "1.IH" [OF d n _ _ y] "1.prems"(1,2) show ?thesis by simp
  qed
qed simp_all

lemma filter_dirs_avoids: "set (filter_dirs ds) \<inter> excluded_dirs = {}"
  by (auto simp: filter_dirs_def)

lemma open_read_prefix:
  "map_of es d = Some sub \<Longrightarrow> open_read (Dir es) (d # p) = open_read sub p"
  by (simp add: open_read_def)

lemma files_loop_prefix:
  "map_of es d = Some sub \<Longrightarrow>
   files_loop (Dir es) (d # r) fs = files_loop sub r fs"
proof (rule ext)
  fix t
  assume m: "map_of es d = Some sub"
  show "files_loop (Dir es) (d # r) fs t = files_loop sub r fs t"
    by (induction fs arbitrary: t)
       (simp_all add: open_read_prefix [OF m] split: sum.splits error.splits)
qed

lemma visit_prefix:
  assumes "map_of es d = Some sub" and "\<forall>c\<in>set (d # r). valid_name c"
  shows "visit (Dir es) (d # r, ds, fs) (JObj kvs) = at_level [d] (visit sub (r, ds, fs)) (JObj kvs)"
proof -
  have r: "\<forall>c\<in>set r. valid_name c" using assms(2) by simp
  have "visit sub (r, ds, fs) = at_level r (files_loop sub r fs)"
    by (rule ext) (simp only: visit_def prod.case Let_def parts_relpath [OF r])
  moreover have "visit (Dir es) (d # r, ds, fs) (JObj kvs)
      = at_level (d # r) (files_loop sub r fs) (JObj kvs)"
    by (simp only: visit_def prod.case Let_def parts_relpath [OF assms(2)]
          files_loop_prefix [OF assms(1)])
  ultimately show ?thesis by simp
qed

lemma walk_loop_append:
  "walk_loop repo (xs @ ys) t =
   (case walk_loop repo xs t of Inl e \<Rightarrow> Inl e | Inr t' \<Rightarrow> walk_loop repo ys t')"
  by (induction xs arbitrary: t) (auto split: sum.splits)

lemma at_level_one:
  "at_level [d] g (JObj kvs) =
   (case g (case map_of kvs d of None \<Rightarrow> JObj [] | Some c \<Rightarrow> c) of
      Inl e \<Rightarrow> Inl e | Inr c' \<Rightarrow> Inr (JObj (AList.update d c' kvs)))"
  by simp

lemma walk_loop_prefix:
  assumes "map_of es d = Some sub" and "valid_name d"
  shows "\<forall>y\<in>set ys. \<forall>c\<in>set (fst y). valid_name c \<Longrightarrow> ys \<noteq> [] \<Longrightarrow>
         walk_loop (Dir es) (map (shift [d]) ys) (JObj kvs)
         = at_level [d] (\<lambda>c. walk_loop sub ys c) (JObj kvs)"
proof (induction ys arbitrary: kvs)
  case Nil
  then show ?case by simp
next
  case (Cons y ys)
  obtain r ds fs where y: "y = (r, ds, fs)" by (cases y)
  have v: "\<forall>c\<in>set (d # r). valid_name c" using Cons.prems(1) assms(2) y by simp
  have sh: "shift [d] y = (d # r, ds, fs)" by (simp add: shift_def y)
  define child where "child = (case map_of kvs d of None \<Rightarrow> JObj [] | Some c \<Rightarrow> c)"
  have vis: "visit (Dir es) (shift [d] y) (JObj kvs) =
      (case visit sub y child of
         Inl e \<Rightarrow> Inl e | Inr c' \<Rightarrow> Inr (JObj (AList.update d c' kvs)))"
    using visit_prefix [OF assms(1) v, of ds fs kvs] by (simp add: shift_def child_def y)
  show ?case
  proof (cases "visit sub y child")
    case (Inl e)
    then show ?thesis
      by (simp add: vis child_def del: at_level.simps add: at_level_one)
  next
    case (Inr c')
    show ?thesis
    proof (cases "ys = []")
      case True
      then show ?thesis
        using Inr by (simp add: vis child_def)
    next
      case False
      with Cons have IH: "\<And>kvs. walk_loop (Dir es) (map (shift [d]) ys) (JObj kvs)
         = at_level [d] (\<lambda>c. walk_loop sub ys c) (JObj kvs)" by simp
      show ?thesis
        using Inr by (simp add: vis child_def IH update_conv' cong: sum.case_cong)
    qed
  qed
qed

subsection \<open>The files of one directory\<close>

lemma files_loop_top:
  assumes "distinct (map fst es)"
  shows "set xs \<subseteq> set es \<Longrightarrow> distinct (map fst xs) \<Longrightarrow> fst ` set kvs \<inter> fst ` set xs = {} \<Longrightarrow>
    files_loop (Dir es) [] (nondirs_of xs) (JObj kvs)
    = (if blocked_files xs then Inl OSError else Inr (JObj (kvs @ leaves xs)))"
proof (induction xs arbitrary: kvs)
  case Nil
  then show ?case by (simp add: nondirs_of_def)
next
  case (Cons e xs)
  obtain f n where e: "e = (f, n)" by (cases e)
  have m: "map_of es f = Some n" using assms Cons.prems(1) e by simp
  have IH: "files_loop (Dir es) [] (nondirs_of xs) (JObj kvs')
      = (if blocked_files xs then Inl OSError else Inr (JObj (kvs' @ leaves xs)))"
    if "fst ` set kvs' \<inter> fst ` set xs = {}" for kvs'
    using Cons.IH [OF _ _ that] Cons.prems by simp
  have k: "fst ` set kvs \<inter> fst ` set xs = {}" using Cons.prems(3) by auto
  have fresh: "f \<notin> fst ` set kvs" using Cons.prems(3) e by auto
  have k': "fst ` set (kvs @ [(f, v)]) \<inter> fst ` set xs = {}" for v
    using Cons.prems(2,3) e by auto
  show ?case
  proof (cases n)
    case (File bytes)
    then show ?thesis
      using IH [OF k] IH [OF k'] fresh
      by (simp add: e nondirs_of_def [of "_ # _"] nondirs_of_def [symmetric] open_read_def m
            update_fresh split: option.splits)
  next
    case FileNoAccess
    then show ?thesis
      using IH [OF k]
      by (simp add: e nondirs_of_def [of "_ # _"] nondirs_of_def [symmetric] open_read_def m)
  next
    case (Dir sub)
    then show ?thesis
      using IH [OF k]
      by (simp add: e nondirs_of_def [of "_ # _"] nondirs_of_def [symmetric])
  next
    case DirNoAccess
    then show ?thesis
      using IH [OF k]
      by (simp add: e nondirs_of_def [of "_ # _"] nondirs_of_def [symmetric])
  qed
qed

subsection \<open>The subdirectories\<close>

lemma dirs_of_Cons:
  "dirs_of ((d, n) # xs) = (if is_dir n then d # dirs_of xs else dirs_of xs)"
  by (simp add: dirs_of_def)

lemma filter_dirs_Cons:
  "filter_dirs (d # ds) = (if d \<in> excluded_dirs then filter_dirs ds else d # filter_dirs ds)"
  by (simp add: filter_dirs_def)

lemma dirs_loop_top:
  assumes "distinct (map fst es)" and "wf_entries es"
  shows "set xs \<subseteq> set es \<Longrightarrow> distinct (map fst xs) \<Longrightarrow>
    fst ` set kvs \<inter> set (dirs_of xs) = {} \<Longrightarrow> \<forall>e\<in>set xs. walk_ok (snd e) \<Longrightarrow>
    walk_loop (Dir es)
      (concat (map (\<lambda>d. case map_of es d of
                          None \<Rightarrow> []
                        | Some n \<Rightarrow> os_walk filter_dirs ([] @ [d]) n)
                   (filter_dirs (dirs_of xs))))
      (JObj kvs)
    = (if blocked_dirs xs then Inl OSError else Inr (JObj (kvs @ subtrees xs)))"
proof (induction xs arbitrary: kvs)
  case Nil
  then show ?case by (simp add: dirs_of_def filter_dirs_def)
next
  case (Cons e xs)
  obtain d n where e: "e = (d, n)" by (cases e)
  let ?W = "\<lambda>d. case map_of es d of None \<Rightarrow> [] | Some n \<Rightarrow> os_walk filter_dirs ([] @ [d]) n"
  let ?rest = "concat (map ?W (filter_dirs (dirs_of xs)))"
  have m: "map_of es d = Some n" using assms(1) Cons.prems(1) e by simp
  have v: "valid_name d" "wf_fs n" using wf_map_of [OF assms(2) m] by simp_all
  have IH: "walk_loop (Dir es) ?rest (JObj kvs')
      = (if blocked_dirs xs then Inl OSError else Inr (JObj (kvs' @ subtrees xs)))"
    if "fst ` set kvs' \<inter> set (dirs_of xs) = {}" for kvs'
    using Cons.IH [OF _ _ that] Cons.prems by simp
  have k: "fst ` set kvs \<inter> set (dirs_of xs) = {}"
    using Cons.prems(3) by (auto simp: e dirs_of_Cons split: if_splits)
  have fresh: "d \<notin> fst ` set kvs" if "is_dir n"
    using Cons.prems(3) that by (auto simp: e dirs_of_Cons)
  have "set (dirs_of xs) \<subseteq> fst ` set xs" by (auto simp: dirs_of_def)
  then have k': "fst ` set (kvs @ [(d, c)]) \<inter> set (dirs_of xs) = {}" for c
    using Cons.prems(2) k e by auto
  have ok: "walk_ok n" using Cons.prems(4) e by simp
  show ?case
  proof (cases "is_dir n \<and> d \<notin> excluded_dirs")
    case False
    then have "filter_dirs (dirs_of (e # xs)) = filter_dirs (dirs_of xs)"
      by (simp add: e dirs_of_Cons filter_dirs_Cons)
    moreover have "subtrees (e # xs) = subtrees xs"
      using False by (cases n) (simp_all add: e)
    moreover have "blocked_dirs (e # xs) = blocked_dirs xs"
      using False by (cases n) (simp_all add: e)
    ultimately show ?thesis using IH [OF k] by simp
  next
    case True
    then have fd: "filter_dirs (dirs_of (e # xs)) = d # filter_dirs (dirs_of xs)"
      by (simp add: e dirs_of_Cons filter_dirs_Cons)
    have W: "?W d = map (shift [d]) (os_walk filter_dirs [] n)"
      using os_walk_shift [of filter_dirs "[d]" "[]" n] by (simp add: m)
    have split: "walk_loop (Dir es) (concat (map ?W (filter_dirs (dirs_of (e # xs))))) (JObj kvs)
        = (case walk_loop (Dir es) (map (shift [d]) (os_walk filter_dirs [] n)) (JObj kvs) of
             Inl e \<Rightarrow> Inl e | Inr t' \<Rightarrow> walk_loop (Dir es) ?rest t')"
      unfolding fd by (simp only: list.map concat.simps walk_loop_append W)
    show ?thesis
    proof (cases n)
      case (Dir sub)
      have valid: "\<forall>y\<in>set (os_walk filter_dirs [] n). \<forall>c\<in>set (fst y). valid_name c"
        using os_walk_valid [OF v(2), of "[]"] by simp
      have ne: "os_walk filter_dirs [] n \<noteq> []" by (simp add: Dir)
      have fr: "d \<notin> fst ` set kvs" using fresh True by simp
      have none: "map_of kvs d = None" using fr by (simp add: map_of_eq_None_iff)
      have first: "walk_loop (Dir es) (map (shift [d]) (os_walk filter_dirs [] n)) (JObj kvs)
          = (if blocked n then Inl OSError else Inr (JObj (kvs @ [(d, tree_of n)])))"
        using ok
        by (simp add: walk_loop_prefix [OF m v(1) valid ne] none walk_ok_def
              update_fresh [OF fr])
      have "subtrees (e # xs) = (d, tree_of n) # subtrees xs"
        using True by (simp add: e Dir)
      moreover have "blocked_dirs (e # xs) = (blocked n \<or> blocked_dirs xs)"
        using True by (simp add: e)
      ultimately show ?thesis
        using IH [OF k'] by (simp add: split first)
    next
      case DirNoAccess
      have "subtrees (e # xs) = subtrees xs" by (simp add: e DirNoAccess)
      moreover have "blocked_dirs (e # xs) = blocked_dirs xs" by (simp add: e DirNoAccess)
      ultimately show ?thesis
        using IH [OF k] by (simp add: split DirNoAccess)
    qed (use True in simp_all)
  qed
qed

lemma visit_top: "visit repo ([], ds, fs) t = files_loop repo [] fs t"
  by (simp add: visit_def relpath_def)

lemma walk_ok_all: "wf_fs n \<Longrightarrow> walk_ok n"
proof (induction n rule: measure_induct_rule [where f = size])
  case (less n)
  show ?case
  proof (cases n)
    case (Dir es)
    have d: "distinct (map fst es)" and w: "wf_entries es" using less.prems Dir by simp_all
    have sub: "\<forall>e\<in>set es. walk_ok (snd e)"
    proof
      fix e assume e: "e \<in> set es"
      then have "(fst e, snd e) \<in> set es" by simp
      from size_entry [OF this] have "size (snd e) < size n" by (simp add: Dir)
      moreover have "wf_fs (snd e)" using w e by (simp add: wf_entries_iff)
      ultimately show "walk_ok (snd e)" by (rule less.IH)
    qed
    have files: "files_loop (Dir es) [] (nondirs_of es) (JObj [])
        = (if blocked_files es then Inl OSError else Inr (JObj (leaves es)))"
      using files_loop_top [OF d, of es "[]"] d by simp
    have dirs: "walk_loop (Dir es)
      (concat (map (\<lambda>d. case map_of es d of
                          None \<Rightarrow> []
                        | Some n \<Rightarrow> os_walk filter_dirs ([] @ [d]) n)
                   (filter_dirs (dirs_of es))))
      (JObj (leaves es))
      = (if blocked_dirs es then Inl OSError else Inr (JObj (leaves es @ subtrees es)))"
    proof -
      have "fst ` set (leaves es) \<subseteq> set (nondirs_of es)"
        by (induction es) (auto simp: nondirs_of_def split: fsnode.splits option.splits if_splits)
      moreover have "set (nondirs_of es) \<inter> set (dirs_of es) = {}"
        using d by (auto simp: nondirs_of_def dirs_of_def dest: eq_key_imp_eq_value)
      ultimately have "fst ` set (leaves es) \<inter> set (dirs_of es) = {}" by blast
      from dirs_loop_top [OF d w _ d this sub] show ?thesis by simp
    qed
    show ?thesis
      using files dirs unfolding walk_ok_def Dir
      by (simp add: visit_top)
  qed (simp_all add: walk_ok_def)
qed

subsection \<open>The whole tree\<close>

lemma build_structure_tree:
  "wf_fs n \<Longrightarrow>
   build_structure (Some n) = (if blocked n then Inl OSError else Inr (tree_of n))"
  using walk_ok_all [of n] by (simp add: build_structure_def walk_ok_def)

lemma built_tree:
  "wf_fs n \<Longrightarrow> build_structure (Some n) = Inr t \<Longrightarrow> t = tree_of n \<and> \<not> blocked n"
  by (simp add: build_structure_tree split: if_splits)

lemma json_dump_empty: "json_dump (JObj []) = str ''{}''"
  by (simp add: json_dump_def)

subsection \<open>Looking a path up in the tree\<close>

lemma map_of_leaves:
  "distinct (map fst es) \<Longrightarrow>
   map_of (leaves es) k =
   (case map_of es k of Some (File bytes) \<Rightarrow> node_of k (File bytes) | _ \<Rightarrow> None)"
proof (induction es)
  case Nil
  then show ?case by simp
next
  case (Cons e es)
  have "k \<notin> fst ` set es \<Longrightarrow> map_of es k = None" by (simp add: map_of_eq_None_iff)
  with Cons show ?case
    by (cases e) (auto split: fsnode.splits option.splits)
qed

lemma map_of_subtrees:
  "distinct (map fst es) \<Longrightarrow>
   map_of (subtrees es) k =
   (case map_of es k of Some (Dir sub) \<Rightarrow> node_of k (Dir sub) | _ \<Rightarrow> None)"
proof (induction es)
  case Nil
  then show ?case by simp
next
  case (Cons e es)
  have "k \<notin> fst ` set es \<Longrightarrow> map_of es k = None" by (simp add: map_of_eq_None_iff)
  with Cons show ?case
    by (cases e) (auto split: fsnode.splits option.splits)
qed

lemma map_of_tree:
  "distinct (map fst es) \<Longrightarrow>
   (map_of (subtrees es) ++ map_of (leaves es)) k = Option.bind (map_of es k) (node_of k)"
  by (simp add: map_of_leaves map_of_subtrees map_add_def split: option.splits fsnode.splits)

lemma fs_lookup_nondir [simp]:
  "fs_lookup (File bytes) (p @ [k]) = None"
  "fs_lookup FileNoAccess (p @ [k]) = None"
  "fs_lookup DirNoAccess (p @ [k]) = None"
  by (cases p; simp)+

lemma json_lookup_JStr [simp]: "json_lookup (JStr s) (p @ [k]) = None"
  by (cases p) simp_all

lemma json_lookup_tree:
  "wf_fs n \<Longrightarrow>
   json_lookup (tree_of n) (p @ [k]) =
   (if set p \<inter> excluded_dirs = {} then Option.bind (fs_lookup n (p @ [k])) (node_of k) else None)"
proof (induction p arbitrary: n)
  case Nil
  then show ?case by (cases n) (auto simp: map_of_tree split: option.splits)
next
  case (Cons d p)
  show ?case
  proof (cases n)
    case (Dir es)
    with Cons.prems have dist: "distinct (map fst es)" and w: "wf_entries es" by simp_all
    show ?thesis
    proof (cases "map_of es d")
      case None
      then show ?thesis by (simp add: Dir map_of_tree [OF dist])
    next
      case (Some m)
      then have "wf_fs m" using w by (auto dest: wf_map_of)
      from Cons.IH [OF this] show ?thesis
        by (cases m) (simp_all add: Dir map_of_tree [OF dist] Some split: option.splits)
    qed
  qed simp_all
qed

lemma node_of_excluded_dir: "is_dir m \<Longrightarrow> d \<in> excluded_dirs \<Longrightarrow> node_of d m = None"
  by (cases m) simp_all

subsection \<open>Trees that give the same result\<close>

lemma hide_same:
  "tree_of (hide_excluded n) = tree_of n \<and> blocked (hide_excluded n) = blocked n
   \<and> (wf_fs n \<longrightarrow> wf_fs (hide_excluded n))"
  "leaves (hide_entries es) = leaves es \<and> subtrees (hide_entries es) = subtrees es
   \<and> blocked_files (hide_entries es) = blocked_files es
   \<and> blocked_dirs (hide_entries es) = blocked_dirs es
   \<and> map fst (hide_entries es) = map fst es
   \<and> (wf_entries es \<longrightarrow> wf_entries (hide_entries es))"
proof (induction n and es rule: hide_excluded_hide_entries.induct)
  case (6 e es)
  then show ?case
    by (cases "snd e") (simp_all split: fsnode.splits option.splits)
qed simp_all

lemma build_hide:
  "wf_fs n \<Longrightarrow> build_structure (Some (hide_excluded n)) = build_structure (Some n)"
  using hide_same(1) [of n] by (simp add: build_structure_tree)

lemma without_binary_names: "fst ` set (without_binary_entries es) \<subseteq> fst ` set es"
  by (induction es) (auto split: fsnode.splits if_splits)

lemma without_binary_same:
  "tree_of (without_binary n) = tree_of n \<and> blocked (without_binary n) = blocked n
   \<and> (wf_fs n \<longrightarrow> wf_fs (without_binary n))"
  "leaves (without_binary_entries es) = leaves es
   \<and> subtrees (without_binary_entries es) = subtrees es
   \<and> blocked_files (without_binary_entries es) = blocked_files es
   \<and> blocked_dirs (without_binary_entries es) = blocked_dirs es
   \<and> (distinct (map fst es) \<longrightarrow> distinct (map fst (without_binary_entries es)))
   \<and> (wf_entries es \<longrightarrow> wf_entries (without_binary_entries es))"
proof (induction n and es rule: without_binary_without_binary_entries.induct)
  case (6 e es)
  have "fst e \<notin> fst ` set es \<Longrightarrow> fst e \<notin> fst ` set (without_binary_entries es)"
    using without_binary_names [of es] by blast
  with 6 show ?case
    by (cases "snd e") (simp_all add: read_text_def split: fsnode.splits option.splits)
qed simp_all

lemma files_only_tree:
  "\<forall>e\<in>set es. \<exists>bytes. snd e = File bytes \<and> utf8_decode (map of_char bytes) = None \<Longrightarrow>
   leaves es = [] \<and> subtrees es = [] \<and> \<not> blocked_files es \<and> \<not> blocked_dirs es"
  by (induction es) (auto simp: read_text_def)

lemma without_unlistable_names: "fst ` set (without_unlistable_entries es) \<subseteq> fst ` set es"
  by (induction es) (auto split: if_splits)

lemma without_unlistable_same:
  "tree_of (without_unlistable n) = tree_of n \<and> blocked (without_unlistable n) = blocked n
   \<and> (wf_fs n \<longrightarrow> wf_fs (without_unlistable n))"
  "leaves (without_unlistable_entries es) = leaves es
   \<and> subtrees (without_unlistable_entries es) = subtrees es
   \<and> blocked_files (without_unlistable_entries es) = blocked_files es
   \<and> blocked_dirs (without_unlistable_entries es) = blocked_dirs es
   \<and> (distinct (map fst es) \<longrightarrow> distinct (map fst (without_unlistable_entries es)))
   \<and> (wf_entries es \<longrightarrow> wf_entries (without_unlistable_entries es))"
proof (induction n and es rule: without_unlistable_without_unlistable_entries.induct)
  case (6 e es)
  have "fst e \<notin> fst ` set es \<Longrightarrow> fst e \<notin> fst ` set (without_unlistable_entries es)"
    using without_unlistable_names [of es] by blast
  with 6 show ?case
    by (cases "snd e") (simp_all split: fsnode.splits option.splits)
qed simp_all

lemma nothing_survives: "\<forall>e\<in>set es. \<not> survives e \<Longrightarrow> leaves es = [] \<and> subtrees es = []"
  by (induction es) (auto simp: survives_def split: fsnode.splits)

subsection \<open>Files that cannot be read\<close>

lemma blocked_files_entry:
  "(f, FileNoAccess) \<in> set es \<Longrightarrow> \<not> file_excluded f \<Longrightarrow> blocked_files es"
  by (induction es) auto

lemma blocked_dirs_entry:
  "(d, m) \<in> set es \<Longrightarrow> d \<notin> excluded_dirs \<Longrightarrow> blocked m \<Longrightarrow> blocked_dirs es"
  by (induction es) auto

lemma blocked_path:
  "set p \<inter> excluded_dirs = {} \<Longrightarrow> fs_lookup n (p @ [f]) = Some FileNoAccess \<Longrightarrow>
   \<not> file_excluded f \<Longrightarrow> blocked n"
proof (induction p arbitrary: n)
  case Nil
  then show ?case
    by (cases n) (auto split: option.splits dest!: map_of_SomeD intro: blocked_files_entry)
next
  case (Cons d p)
  then show ?case
    by (cases n) (auto split: option.splits dest!: map_of_SomeD intro: blocked_dirs_entry)
qed

subsection \<open>Strings\<close>

lemma endswith_suffix: "endswith s suf \<longleftrightarrow> suffix suf s"
proof
  assume "endswith s suf"
  then have "s = take (length s - length suf) s @ suf"
    by (metis append_take_drop_id endswith_def)
  then show "suffix suf s" unfolding suffix_def by blast
next
  assume "suffix suf s"
  then obtain zs where "s = zs @ suf" unfolding suffix_def by blast
  then show "endswith s suf" by (simp add: endswith_def)
qed

lemma universal_newlines_id: "13 \<notin> set s \<Longrightarrow> universal_newlines s = s"
  by (induction s rule: universal_newlines.induct) auto

lemma universal_newlines_replace: "universal_newlines s = cr_to_lf (crlf_to_lf s)"
  by (induction s rule: universal_newlines.induct) (simp_all add: cr_to_lf_def)

lemma universal_newlines_no_cr: "13 \<notin> set (universal_newlines s)"
  by (induction s rule: universal_newlines.induct) simp_all

lemma universal_newlines_fixed: "universal_newlines s = s \<longleftrightarrow> 13 \<notin> set s"
  using universal_newlines_no_cr [of s] universal_newlines_id [of s] by metis

subsection \<open>The serializer\<close>











subsection \<open>The sample trees\<close>

lemmas run_defs =
  build_structure_def dirs_of_def nondirs_of_def filter_dirs_def visit_def relpath_def
  open_read_def read_text_def file_excluded_def excluded_extensions_def excluded_files_def
  excluded_dirs_def endswith_def str_def is_cont_def

lemma scenario_wf: "wf_fs scenario_repo"
  by (simp add: scenario_repo_def valid_name_def str_def)

lemma scenario_built: "build_structure (Some scenario_repo) = Inr scenario_tree"
  by (simp add: scenario_repo_def scenario_tree_def run_defs)

section \<open>The claims\<close>

subsection \<open>C1: a root that is missing or not a directory\<close>

text \<open>
  C1 says that a root path that does not exist, or is not a directory, makes the run fail
  before the traversal, with a non-zero exit status and no output file. The script has no
  such check: \<^verbatim>\<open>os.walk\<close> passes over a top it cannot list, the loop body never
  runs, and the empty dictionary is written. At a root that does not exist the exit status
  is 0 and the output file holds \<^verbatim>\<open>{}\<close>.
\<close>

theorem missing_root_succeeds:
  "fst (script \<lparr>repo_path = None, output_writable = True, output_file = None\<rparr>) = 0
   \<and> output_file (snd (script \<lparr>repo_path = None, output_writable = True, output_file = None\<rparr>))
       = Some (str ''{}'')"
  by (simp add: script_def repo_to_json_def build_structure_def json_dump_def)

text \<open>
  C1 as amended: when the root path does not exist or is not a directory, and the output
  file can be written, the run raises nothing, writes the empty object \<^verbatim>\<open>{}\<close> to
  the output file and exits with status 0.
\<close>

theorem invalid_root_writes_empty_object:
  "(case repo_path w of None \<Rightarrow> True | Some n \<Rightarrow> \<not> is_dir n) \<Longrightarrow> output_writable w \<Longrightarrow>
   script w = (0, w\<lparr>output_file := Some (str ''{}'')\<rparr>)"
proof -
  assume root: "case repo_path w of None \<Rightarrow> True | Some n \<Rightarrow> \<not> is_dir n"
    and out: "output_writable w"
  have "build_structure (repo_path w) = Inr (JObj [])"
  proof (cases "repo_path w")
    case None
    then show ?thesis by (simp add: build_structure_def)
  next
    case (Some n)
    with root have "\<not> is_dir n" by simp
    then have "os_walk filter_dirs [] n = []" by (cases n) simp_all
    with Some show ?thesis by (simp add: build_structure_def)
  qed
  with out show ?thesis
    by (simp add: script_def repo_to_json_def json_dump_empty)
qed

theorem invalid_root_witness:
  "(case repo_path \<lparr>repo_path = Some (File ''x''), output_writable = True, output_file = None\<rparr> of
      None \<Rightarrow> True | Some n \<Rightarrow> \<not> is_dir n)
   \<and> output_writable \<lparr>repo_path = Some (File ''x''), output_writable = True, output_file = None\<rparr>
   \<and> script \<lparr>repo_path = Some (File ''x''), output_writable = True, output_file = None\<rparr>
       = (0, \<lparr>repo_path = Some (File ''x''), output_writable = True,
              output_file = Some (str ''{}'')\<rparr>)"
  using invalid_root_writes_empty_object
    [of "\<lparr>repo_path = Some (File ''x''), output_writable = True, output_file = None\<rparr>"]
  by simp

subsection \<open>C2: the content of a leaf\<close>

text \<open>
  C2 says that the leaf of a file holds the decoded content verbatim, with no line-ending
  normalization. The file is opened in text mode with no \<^verbatim>\<open>newline\<close> argument, so
  \<^verbatim>\<open>f.read()\<close> returns the text with universal newlines applied. A file with the four
  bytes \<^verbatim>\<open>a\r\nb\<close> decodes to four characters, and its leaf holds the three characters
  \<^verbatim>\<open>a\nb\<close>.
\<close>

theorem crlf_is_not_kept:
  "utf8_decode (map of_char [CHR ''a'', CHR 0x0D, CHR 0x0A, CHR ''b'']) = Some [97, 13, 10, 98]
   \<and> build_structure (Some crlf_repo) = Inr (JObj [(str ''a.txt'', JStr [97, 10, 98])])"
  by (simp add: crlf_repo_def build_structure_def dirs_of_def nondirs_of_def filter_dirs_def
        visit_def relpath_def open_read_def read_text_def file_excluded_def
        excluded_extensions_def excluded_files_def endswith_def str_def)

text \<open>
  C2 as amended: for every file in a directory the walk reaches that is not excluded and
  decodes as UTF-8, the leaf under its directory node, keyed by the file's name, holds the
  decoded text with every \<^verbatim>\<open>\r\n\<close> and then every lone \<^verbatim>\<open>\r\<close> replaced by
  \<^verbatim>\<open>\n\<close>, so that no \<^verbatim>\<open>\r\<close> is left in it; it is the decoded text itself exactly
  when that has no \<^verbatim>\<open>\r\<close> in it.
\<close>

theorem leaf_holds_translated_text:
  assumes "wf_fs n" and "build_structure (Some n) = Inr t"
    and "set p \<inter> excluded_dirs = {}"
    and "fs_lookup n (p @ [file]) = Some (File bytes)"
    and "\<not> file_excluded file"
    and "utf8_decode (map of_char bytes) = Some text"
  shows "json_lookup t (p @ [file]) = Some (JStr (cr_to_lf (crlf_to_lf text)))
         \<and> 13 \<notin> set (cr_to_lf (crlf_to_lf text))
         \<and> (json_lookup t (p @ [file]) = Some (JStr text) \<longleftrightarrow> 13 \<notin> set text)"
proof -
  from assms(1,2) have t: "t = tree_of n" by (simp add: built_tree)
  have l: "json_lookup t (p @ [file]) = Some (JStr (universal_newlines text))"
    unfolding t json_lookup_tree [OF assms(1)]
    using assms(3-6) by (simp add: read_text_def)
  then show ?thesis
    using universal_newlines_fixed [of "text"] universal_newlines_no_cr [of "text"]
    by (simp add: universal_newlines_replace)
qed

theorem mixed_newlines_witness:
  "wf_fs mixed_newlines_repo
   \<and> build_structure (Some mixed_newlines_repo)
       = Inr (JObj [(str ''a.txt'', JStr [97, 10, 98, 10, 99, 10])])
   \<and> set [] \<inter> excluded_dirs = {}
   \<and> fs_lookup mixed_newlines_repo ([] @ [str ''a.txt''])
       = Some (File [CHR ''a'', CHR 0x0D, CHR ''b'', CHR 0x0D, CHR 0x0A, CHR ''c'', CHR 0x0A])
   \<and> \<not> file_excluded (str ''a.txt'')
   \<and> utf8_decode (map of_char [CHR ''a'', CHR 0x0D, CHR ''b'', CHR 0x0D, CHR 0x0A, CHR ''c'', CHR 0x0A])
       = Some [97, 13, 98, 13, 10, 99, 10]
   \<and> cr_to_lf (crlf_to_lf [97, 13, 98, 13, 10, 99, 10]) = [97, 10, 98, 10, 99, 10]
   \<and> json_lookup (JObj [(str ''a.txt'', JStr [97, 10, 98, 10, 99, 10])]) ([] @ [str ''a.txt''])
       = Some (JStr [97, 10, 98, 10, 99, 10])
   \<and> json_lookup (JObj [(str ''a.txt'', JStr [97, 10, 98, 10, 99, 10])]) ([] @ [str ''a.txt''])
       \<noteq> Some (JStr [97, 13, 98, 13, 10, 99, 10])"
proof -
  have w: "wf_fs mixed_newlines_repo"
    by (simp add: mixed_newlines_repo_def valid_name_def str_def)
  have t: "build_structure (Some mixed_newlines_repo)
       = Inr (JObj [(str ''a.txt'', JStr [97, 10, 98, 10, 99, 10])])"
    by (simp add: mixed_newlines_repo_def run_defs)
  have a: "set [] \<inter> excluded_dirs = {}" by simp
  have b: "fs_lookup mixed_newlines_repo ([] @ [str ''a.txt''])
       = Some (File [CHR ''a'', CHR 0x0D, CHR ''b'', CHR 0x0D, CHR 0x0A, CHR ''c'', CHR 0x0A])"
    by (simp add: mixed_newlines_repo_def)
  have c: "\<not> file_excluded (str ''a.txt'')" by (simp add: run_defs)
  have d: "utf8_decode (map of_char [CHR ''a'', CHR 0x0D, CHR ''b'', CHR 0x0D, CHR 0x0A, CHR ''c'', CHR 0x0A])
       = Some [97, 13, 98, 13, 10, 99, 10]" by simp
  have e: "cr_to_lf (crlf_to_lf [97, 13, 98, 13, 10, 99, 10]) = [97, 10, 98, 10, 99, 10]"
    by (simp add: cr_to_lf_def)
  from leaf_holds_translated_text [OF w t a b c d]
  have "json_lookup (JObj [(str ''a.txt'', JStr [97, 10, 98, 10, 99, 10])]) ([] @ [str ''a.txt''])
       = Some (JStr [97, 10, 98, 10, 99, 10])"
    and "json_lookup (JObj [(str ''a.txt'', JStr [97, 10, 98, 10, 99, 10])]) ([] @ [str ''a.txt''])
       \<noteq> Some (JStr [97, 13, 98, 13, 10, 99, 10])"
    by (simp_all add: cr_to_lf_def)
  with w t a b c d e show ?thesis by blast
qed

subsection \<open>C3: the serializer\<close>




subsection \<open>C4: excluded directories are pruned\<close>

text \<open>
  C4: a directory named \<^verbatim>\<open>.git\<close>, \<^verbatim>\<open>node_modules\<close>, \<^verbatim>\<open>dist\<close>, \<^verbatim>\<open>build\<close> or
  \<^verbatim>\<open>__pycache__\<close> is filtered out before the walk recurses. It is never entered: no
  directory the walk yields has an excluded name on its path. Its contents are never
  inspected: the result is the one of the tree in which nothing but the name is left of it.
  And neither it nor anything below it has a node in the output.
\<close>

theorem excluded_dirs_pruned:
  assumes "wf_fs n"
  shows "(\<forall>y\<in>set (os_walk filter_dirs [] n). set (fst y) \<inter> excluded_dirs = {})
    \<and> build_structure (Some (hide_excluded n)) = build_structure (Some n)
    \<and> (\<forall>t p d m q. build_structure (Some n) = Inr t \<and> fs_lookup n (p @ [d]) = Some m
          \<and> is_dir m \<and> d \<in> excluded_dirs \<longrightarrow> json_lookup t (p @ d # q) = None)"
proof (intro conjI allI impI ballI)
  fix y assume "y \<in> set (os_walk filter_dirs [] n)"
  then show "set (fst y) \<inter> excluded_dirs = {}"
    using os_walk_avoids [of filter_dirs excluded_dirs "[]" y n] filter_dirs_avoids by simp
next
  show "build_structure (Some (hide_excluded n)) = build_structure (Some n)"
    using assms by (rule build_hide)
next
  fix t p d m q
  assume a: "build_structure (Some n) = Inr t \<and> fs_lookup n (p @ [d]) = Some m
          \<and> is_dir m \<and> d \<in> excluded_dirs"
  with assms have t: "t = tree_of n" by (simp add: built_tree)
  show "json_lookup t (p @ d # q) = None"
  proof (cases q rule: rev_cases)
    case Nil
    then show ?thesis
      using a json_lookup_tree [OF assms, of p d] by (simp add: t node_of_excluded_dir)
  next
    case (snoc q' k)
    then show ?thesis
      using a json_lookup_tree [OF assms, of "p @ d # q'" k] by (simp add: t)
  qed
qed

theorem pruned_witness:
  "wf_fs scenario_repo
   \<and> ([str ''src''], [], [str ''main.txt'']) \<in> set (os_walk filter_dirs [] scenario_repo)
   \<and> set (fst ([str ''src''], [] :: pystr list, [str ''main.txt''])) \<inter> excluded_dirs = {}
   \<and> build_structure (Some (hide_excluded scenario_repo)) = build_structure (Some scenario_repo)
   \<and> build_structure (Some scenario_repo) = Inr scenario_tree
   \<and> fs_lookup scenario_repo ([] @ [str ''.git'']) = Some (Dir [(str ''config'', File ''x'')])
   \<and> is_dir (Dir [(str ''config'', File ''x'')])
   \<and> str ''.git'' \<in> excluded_dirs
   \<and> json_lookup scenario_tree ([] @ str ''.git'' # [str ''config'']) = None"
proof -
  have y: "([str ''src''], [], [str ''main.txt'']) \<in> set (os_walk filter_dirs [] scenario_repo)"
    by (simp add: scenario_repo_def run_defs)
  have l: "fs_lookup scenario_repo ([] @ [str ''.git'']) = Some (Dir [(str ''config'', File ''x'')])"
    by (simp add: scenario_repo_def str_def)
  have e: "str ''.git'' \<in> excluded_dirs" by (simp add: excluded_dirs_def)
  from excluded_dirs_pruned [OF scenario_wf] y l e scenario_built
  have "set (fst ([str ''src''], [] :: pystr list, [str ''main.txt''])) \<inter> excluded_dirs = {}"
    and "build_structure (Some (hide_excluded scenario_repo)) = build_structure (Some scenario_repo)"
    and "json_lookup scenario_tree ([] @ str ''.git'' # [str ''config'']) = None"
    by (blast, blast, fastforce)
  with y l e scenario_wf scenario_built show ?thesis by simp
qed

subsection \<open>C5: which files the exclusion test skips\<close>

text \<open>
  C5 says that a file has no leaf if and only if its name ends with one of the excluded
  extensions or is one of the excluded file names. The test of lines 25 and 26 is that
  test on the name, but it is not the only way to have no leaf: a file that does not
  decode as UTF-8 has none either. In the sample tree \<^verbatim>\<open>logo.bin\<close> has no leaf, and
  its name has none of the suffixes and is none of the names.
\<close>

theorem binary_file_unexcluded_no_leaf:
  "build_structure (Some scenario_repo) = Inr scenario_tree
   \<and> fs_lookup scenario_repo [str ''logo.bin''] = Some (File [CHR 0xFF])
   \<and> json_lookup scenario_tree [str ''logo.bin''] = None
   \<and> \<not> ((\<exists>ext\<in>{str ''.js'', str ''.js.map'', str ''.d.ts'', str ''.exe'', str ''.pyc''}.
            suffix ext (str ''logo.bin''))
         \<or> str ''logo.bin'' \<in> {str ''.DS_Store'', str ''*.log'', str ''*.lock''})"
  by (simp add: scenario_built)
     (simp add: scenario_repo_def scenario_tree_def str_def suffix_def)

text \<open>
  C5 as amended: for a readable file in a directory the walk reaches, the leaf is absent
  when its name ends with \<^verbatim>\<open>.js\<close>, \<^verbatim>\<open>.js.map\<close>, \<^verbatim>\<open>.d.ts\<close>, \<^verbatim>\<open>.exe\<close> or
  \<^verbatim>\<open>.pyc\<close>, or is exactly \<^verbatim>\<open>.DS_Store\<close>, \<^verbatim>\<open>*.log\<close> or \<^verbatim>\<open>*.lock\<close>, and is
  otherwise what reading the file gives; so a file that decodes as UTF-8 is skipped if
  and only if its name passes that test. The three names are compared as they stand:
  \<^verbatim>\<open>foo.log\<close> is not skipped. A name ends with a string when the string is a suffix
  of it.
\<close>

theorem file_skipped_iff_excluded:
  assumes "wf_fs n" and "build_structure (Some n) = Inr t"
    and "set p \<inter> excluded_dirs = {}"
    and "fs_lookup n (p @ [file]) = Some (File bytes)"
  shows "json_lookup t (p @ [file]) =
         (if (\<exists>ext\<in>{str ''.js'', str ''.js.map'', str ''.d.ts'', str ''.exe'', str ''.pyc''}.
                suffix ext file)
             \<or> file \<in> {str ''.DS_Store'', str ''*.log'', str ''*.lock''}
          then None
          else map_option JStr (read_text bytes))
    \<and> (utf8_decode (map of_char bytes) \<noteq> None \<longrightarrow>
         (json_lookup t (p @ [file]) = None \<longleftrightarrow>
          (\<exists>ext\<in>{str ''.js'', str ''.js.map'', str ''.d.ts'', str ''.exe'', str ''.pyc''}.
              suffix ext file)
          \<or> file \<in> {str ''.DS_Store'', str ''*.log'', str ''*.lock''}))"
proof -
  from assms(1,2) have t: "t = tree_of n" by (simp add: built_tree)
  have "file_excluded file \<longleftrightarrow>
        (\<exists>ext\<in>{str ''.js'', str ''.js.map'', str ''.d.ts'', str ''.exe'', str ''.pyc''}.
            suffix ext file)
        \<or> file \<in> {str ''.DS_Store'', str ''*.log'', str ''*.lock''}"
    by (simp only: file_excluded_def excluded_extensions_def excluded_files_def endswith_suffix)
  then have "json_lookup t (p @ [file]) =
         (if (\<exists>ext\<in>{str ''.js'', str ''.js.map'', str ''.d.ts'', str ''.exe'', str ''.pyc''}.
                suffix ext file)
             \<or> file \<in> {str ''.DS_Store'', str ''*.log'', str ''*.lock''}
          then None
          else map_option JStr (read_text bytes))"
    unfolding t json_lookup_tree [OF assms(1)] using assms(3,4) by simp
  then show ?thesis by (simp add: read_text_def)
qed

theorem skipped_witness:
  "wf_fs scenario_repo \<and> build_structure (Some scenario_repo) = Inr scenario_tree
   \<and> set [] \<inter> excluded_dirs = {}
   \<and> fs_lookup scenario_repo ([] @ [str ''foo.log'']) = Some (File ''log'')
   \<and> fs_lookup scenario_repo ([] @ [str ''app.js'']) = Some (File ''x'')
   \<and> utf8_decode (map of_char ''log'') \<noteq> None
   \<and> json_lookup scenario_tree ([] @ [str ''foo.log'']) = Some (JStr (str ''log''))
   \<and> json_lookup scenario_tree ([] @ [str ''app.js'']) = None"
proof -
  have a: "set [] \<inter> excluded_dirs = {}" by simp
  have b: "fs_lookup scenario_repo ([] @ [str ''foo.log'']) = Some (File ''log'')"
    by (simp add: scenario_repo_def str_def)
  have c: "fs_lookup scenario_repo ([] @ [str ''app.js'']) = Some (File ''x'')"
    by (simp add: scenario_repo_def str_def)
  have d: "utf8_decode (map of_char ''log'') \<noteq> None" by simp
  have "json_lookup scenario_tree ([] @ [str ''foo.log'']) = Some (JStr (str ''log''))"
    by (simp only: file_skipped_iff_excluded [OF scenario_wf scenario_built a b, THEN conjunct1])
       (simp add: str_def read_text_def suffix_def)
  moreover have "json_lookup scenario_tree ([] @ [str ''app.js'']) = None"
    by (simp only: file_skipped_iff_excluded [OF scenario_wf scenario_built a c, THEN conjunct1])
       (simp add: str_def suffix_def)
  ultimately show ?thesis using a b c d scenario_wf scenario_built by blast
qed

subsection \<open>C6: files that are not UTF-8\<close>

text \<open>
  C6: a file whose bytes are not valid UTF-8 is skipped entirely. It has no leaf; it
  raises no error, the run being the run on the tree without such files; and a root that
  holds nothing but such files gives the output \<^verbatim>\<open>{}\<close> and the exit status 0, the
  output file being writable.
\<close>

theorem undecodable_file_skipped:
  assumes "wf_fs n"
  shows "(\<forall>t p file bytes. build_structure (Some n) = Inr t
            \<and> fs_lookup n (p @ [file]) = Some (File bytes)
            \<and> utf8_decode (map of_char bytes) = None \<longrightarrow> json_lookup t (p @ [file]) = None)
    \<and> build_structure (Some (without_binary n)) = build_structure (Some n)
    \<and> (\<forall>es w. n = Dir es
          \<and> (\<forall>e\<in>set es. \<exists>bytes. snd e = File bytes \<and> utf8_decode (map of_char bytes) = None)
          \<and> repo_path w = Some n \<and> output_writable w \<longrightarrow>
          script w = (0, w\<lparr>output_file := Some (str ''{}'')\<rparr>))"
proof (intro conjI allI impI)
  fix t p f bytes
  assume a: "build_structure (Some n) = Inr t
            \<and> fs_lookup n (p @ [f]) = Some (File bytes)
            \<and> utf8_decode (map of_char bytes) = None"
  with assms have t: "t = tree_of n" by (simp add: built_tree)
  show "json_lookup t (p @ [f]) = None"
    unfolding t json_lookup_tree [OF assms] using a by (simp add: read_text_def)
next
  show "build_structure (Some (without_binary n)) = build_structure (Some n)"
    using assms without_binary_same(1) [of n] by (simp add: build_structure_tree)
next
  fix es and w :: world
  assume a: "n = Dir es
          \<and> (\<forall>e\<in>set es. \<exists>bytes. snd e = File bytes \<and> utf8_decode (map of_char bytes) = None)
          \<and> repo_path w = Some n \<and> output_writable w"
  then have "leaves es = [] \<and> subtrees es = [] \<and> \<not> blocked_files es \<and> \<not> blocked_dirs es"
    by (intro files_only_tree) simp
  with a assms have "build_structure (repo_path w) = Inr (JObj [])"
    by (simp add: build_structure_tree)
  with a show "script w = (0, w\<lparr>output_file := Some (str ''{}'')\<rparr>)"
    by (simp add: script_def repo_to_json_def json_dump_empty)
qed

theorem undecodable_witness:
  "wf_fs scenario_repo \<and> build_structure (Some scenario_repo) = Inr scenario_tree
   \<and> fs_lookup scenario_repo ([] @ [str ''logo.bin'']) = Some (File [CHR 0xFF])
   \<and> utf8_decode (map of_char [CHR 0xFF]) = None
   \<and> json_lookup scenario_tree ([] @ [str ''logo.bin'']) = None
   \<and> build_structure (Some (without_binary scenario_repo)) = Inr scenario_tree
   \<and> wf_fs binary_repo
   \<and> script \<lparr>repo_path = Some binary_repo, output_writable = True, output_file = None\<rparr>
       = (0, \<lparr>repo_path = Some binary_repo, output_writable = True,
              output_file = Some (str ''{}'')\<rparr>)"
proof -
  have b: "fs_lookup scenario_repo ([] @ [str ''logo.bin'']) = Some (File [CHR 0xFF])"
    by (simp add: scenario_repo_def str_def)
  have c: "utf8_decode (map of_char [CHR 0xFF]) = None" by simp
  have w: "wf_fs binary_repo" by (simp add: binary_repo_def valid_name_def str_def)
  from undecodable_file_skipped [OF scenario_wf] scenario_built b c
  have "json_lookup scenario_tree ([] @ [str ''logo.bin'']) = None"
    and "build_structure (Some (without_binary scenario_repo)) = Inr scenario_tree"
    by (blast, simp)
  moreover from undecodable_file_skipped [OF w]
  have "script \<lparr>repo_path = Some binary_repo, output_writable = True, output_file = None\<rparr>
       = (0, \<lparr>repo_path = Some binary_repo, output_writable = True, output_file = None\<rparr>
              \<lparr>output_file := Some (str ''{}'')\<rparr>)"
    by (auto simp: binary_repo_def)
  ultimately show ?thesis using b c w scenario_wf scenario_built by simp
qed

subsection \<open>C7: permission and I/O errors\<close>

text \<open>
  C7 says that an error on a single subdirectory or file makes the builder skip it and go
  on. That holds for a directory, which \<^verbatim>\<open>os.walk\<close> passes over; it does not hold for
  a file, since the loop catches \<^verbatim>\<open>UnicodeDecodeError\<close> only. With a file that cannot
  be opened next to a readable one, the run ends with exit status 1 and writes nothing.
\<close>

theorem unreadable_file_aborts_run:
  "script \<lparr>repo_path = Some unreadable_repo, output_writable = True, output_file = None\<rparr>
   = (1, \<lparr>repo_path = Some unreadable_repo, output_writable = True, output_file = None\<rparr>)"
  by (simp add: script_def repo_to_json_def unreadable_repo_def run_defs)

text \<open>
  C7 as amended: a subdirectory that cannot be listed is skipped and the traversal goes
  on, the run being the run on the tree without such directories; a file that cannot be
  opened or read, in a directory the walk reaches and not excluded by name, is not
  skipped: the error leaves \<^verbatim>\<open>repo_to_json\<close>, the script exits with status 1 and
  the output file is not written.
\<close>

theorem unlistable_skipped_unreadable_aborts:
  assumes "wf_fs n"
  shows "build_structure (Some (without_unlistable n)) = build_structure (Some n)
    \<and> (\<forall>p file w. set p \<inter> excluded_dirs = {} \<and> fs_lookup n (p @ [file]) = Some FileNoAccess
          \<and> \<not> file_excluded file \<and> repo_path w = Some n \<longrightarrow>
          build_structure (Some n) = Inl OSError \<and> script w = (1, w))"
proof (intro conjI allI impI)
  show "build_structure (Some (without_unlistable n)) = build_structure (Some n)"
    using assms without_unlistable_same(1) [of n] by (simp add: build_structure_tree)
next
  fix p f and w :: world
  assume a: "set p \<inter> excluded_dirs = {} \<and> fs_lookup n (p @ [f]) = Some FileNoAccess
          \<and> \<not> file_excluded f \<and> repo_path w = Some n"
  then have "blocked n" using blocked_path [of p n f] by simp
  with assms show "build_structure (Some n) = Inl OSError"
    by (simp add: build_structure_tree)
  with a show "script w = (1, w)"
    by (simp add: script_def repo_to_json_def)
qed

theorem unlistable_unreadable_witness:
  "wf_fs scenario_repo
   \<and> build_structure (Some (without_unlistable scenario_repo)) = Inr scenario_tree
   \<and> wf_fs unreadable_repo \<and> set [] \<inter> excluded_dirs = {}
   \<and> fs_lookup unreadable_repo ([] @ [str ''a.txt'']) = Some FileNoAccess
   \<and> \<not> file_excluded (str ''a.txt'')
   \<and> build_structure (Some unreadable_repo) = Inl OSError"
proof -
  have w: "wf_fs unreadable_repo" by (simp add: unreadable_repo_def valid_name_def str_def)
  have b: "fs_lookup unreadable_repo ([] @ [str ''a.txt'']) = Some FileNoAccess"
    by (simp add: unreadable_repo_def)
  have c: "\<not> file_excluded (str ''a.txt'')" by (simp add: run_defs)
  from unlistable_skipped_unreadable_aborts [OF scenario_wf] scenario_built
  have "build_structure (Some (without_unlistable scenario_repo)) = Inr scenario_tree"
    by simp
  moreover from unlistable_skipped_unreadable_aborts [OF w] b c
  have "build_structure (Some unreadable_repo) = Inl OSError"
    by (metis (no_types) empty_set inf_bot_left select_convs(1))
  ultimately show ?thesis using w b c scenario_wf by simp
qed

subsection \<open>C8: two runs on the same tree\<close>



subsection \<open>C9: directories with nothing in them\<close>

text \<open>
  C9 says that every subdirectory that is not excluded gets a node. A subdirectory that
  cannot be listed is in \<^verbatim>\<open>dirs\<close> and is not excluded, but the walk yields nothing for
  it, so \<^verbatim>\<open>setdefault\<close> is never called with its name: it has no node.
\<close>

theorem unlistable_subdirectory_has_no_node:
  "fs_lookup unlistable_repo [str ''locked''] = Some DirNoAccess
   \<and> str ''locked'' \<in> set (dirs_of [(str ''locked'', DirNoAccess)])
   \<and> str ''locked'' \<notin> excluded_dirs
   \<and> build_structure (Some unlistable_repo) = Inr (JObj [])
   \<and> json_lookup (JObj []) [str ''locked''] = None"
  by (simp add: unlistable_repo_def run_defs)

text \<open>
  C9 as amended: every subdirectory that is not excluded and that the walk can list gets
  a node in the output, keyed by its name under the node of its parent, also when nothing
  in it survives; it is then the empty object, written \<^verbatim>\<open>{}\<close>.
\<close>

theorem listed_subdirectory_has_node:
  assumes "wf_fs n" and "build_structure (Some n) = Inr t"
    and "set (p @ [d]) \<inter> excluded_dirs = {}"
    and "fs_lookup n (p @ [d]) = Some (Dir sub)"
  shows "(\<exists>dct. json_lookup t (p @ [d]) = Some (JObj dct))
    \<and> ((\<forall>e\<in>set sub. \<not> survives e) \<longrightarrow>
          json_lookup t (p @ [d]) = Some (JObj []) \<and> iterencode level (JObj []) = str ''{}'')"
proof -
  from assms(1,2) have t: "t = tree_of n" by (simp add: built_tree)
  have l: "json_lookup t (p @ [d]) = Some (JObj (leaves sub @ subtrees sub))"
    unfolding t json_lookup_tree [OF assms(1)] using assms(3,4) by simp
  then show ?thesis by (auto dest: nothing_survives)
qed

theorem listed_subdirectory_witness:
  "wf_fs scenario_repo \<and> build_structure (Some scenario_repo) = Inr scenario_tree
   \<and> set ([] @ [str ''empty'']) \<inter> excluded_dirs = {}
   \<and> fs_lookup scenario_repo ([] @ [str ''empty'']) = Some (Dir [])
   \<and> json_lookup scenario_tree ([] @ [str ''empty'']) = Some (JObj [])
   \<and> iterencode 1 (JObj []) = str ''{}''"
proof -
  have a: "set ([] @ [str ''empty'']) \<inter> excluded_dirs = {}"
    by (simp add: excluded_dirs_def str_def)
  have b: "fs_lookup scenario_repo ([] @ [str ''empty'']) = Some (Dir [])"
    by (simp add: scenario_repo_def str_def)
  from listed_subdirectory_has_node [OF scenario_wf scenario_built a b, of 1]
  have "json_lookup scenario_tree ([] @ [str ''empty'']) = Some (JObj [])
        \<and> iterencode 1 (JObj []) = str ''{}''"
    by simp
  then show ?thesis using a b scenario_wf scenario_built by blast
qed

subsection \<open>C10: a file named as an excluded extension\<close>

text \<open>
  C10: a file whose whole name is one of the excluded extensions, such as \<^verbatim>\<open>.js\<close> or
  \<^verbatim>\<open>.exe\<close>, is skipped by the exclusion test, a string being a suffix of itself, and
  has no leaf.
\<close>

theorem extension_named_file_skipped:
  assumes "wf_fs n" and "build_structure (Some n) = Inr t"
    and "file \<in> excluded_extensions"
    and "fs_lookup n (p @ [file]) = Some m" and "\<not> is_dir m"
  shows "file_excluded file \<and> json_lookup t (p @ [file]) = None"
proof -
  from assms(1,2) have t: "t = tree_of n" by (simp add: built_tree)
  have "endswith file file" by (simp add: endswith_def)
  with assms(3) have ex: "file_excluded file" by (auto simp: file_excluded_def)
  then have "node_of file m = None" using assms(5) by (cases m) simp_all
  then show ?thesis
    unfolding t json_lookup_tree [OF assms(1)] using assms(4) ex by simp
qed

theorem extension_named_witness:
  "wf_fs scenario_repo \<and> build_structure (Some scenario_repo) = Inr scenario_tree
   \<and> str ''.exe'' \<in> excluded_extensions
   \<and> fs_lookup scenario_repo ([] @ [str ''.exe'']) = Some (File ''x'')
   \<and> \<not> is_dir (File ''x'')
   \<and> file_excluded (str ''.exe'')
   \<and> json_lookup scenario_tree ([] @ [str ''.exe'']) = None"
proof -
  have a: "str ''.exe'' \<in> excluded_extensions" by (simp add: excluded_extensions_def)
  have b: "fs_lookup scenario_repo ([] @ [str ''.exe'']) = Some (File ''x'')"
    by (simp add: scenario_repo_def str_def)
  have c: "\<not> is_dir (File ''x'')" by simp
  from extension_named_file_skipped [OF scenario_wf scenario_built a b c]
  show ?thesis using a b c scenario_wf scenario_built by blast
qed

end
